theory Spec2Isabelle
  imports Main "HOL-Library.Word"
begin

section \<open>Python values used by the package\<close>

text \<open>
  A \<open>bytes\<close> object is a list of 8-bit words; a \<open>str\<close> is a list of Unicode code
  points (natural numbers), so that \<open>'.'\<close> is \<open>[46]\<close> and \<open>'\x00'\<close> is \<open>[0]\<close>.
  Python integers are unbounded and modelled as \<open>int\<close>.
\<close>

type_synonym byte = "8 word"

type_synonym bytes = "byte list"

type_synonym str = "nat list"

text \<open>The slice \<open>xs[i:j]\<close> for \<open>0 \<le> i \<le> j\<close>; it never raises and stops at the end.\<close>

definition slice :: "nat \<Rightarrow> nat \<Rightarrow> 'a list \<Rightarrow> 'a list" where
  "slice i j xs = take (j - i) (drop i xs)"

text \<open>The slice \<open>xs[:n]\<close>; a negative \<open>n\<close> counts from the end.\<close>

definition slice_upto :: "int \<Rightarrow> 'a list \<Rightarrow> 'a list" where
  "slice_upto n xs = (if 0 \<le> n then take (nat n) xs else take (length xs - nat (- n)) xs)"

text \<open>\<open>xs.ljust(w, fill)\<close>: pads on the right up to width \<open>w\<close>, never truncates.\<close>

definition ljust :: "nat \<Rightarrow> 'a \<Rightarrow> 'a list \<Rightarrow> 'a list" where
  "ljust w fill xs = xs @ replicate (w - length xs) fill"

text \<open>\<open>s.rstrip(ch)\<close> for a one-character argument.\<close>

definition rstrip :: "'a \<Rightarrow> 'a list \<Rightarrow> 'a list" where
  "rstrip ch xs = rev (dropWhile (\<lambda>c. c = ch) (rev xs))"

subsection \<open>\<open>datetime\<close>\<close>

record datetime =
  year :: int
  month :: int
  day :: int
  hour :: int
  minute :: int
  second :: int
  microsecond :: int

definition is_leap :: "int \<Rightarrow> bool" where
  "is_leap y = (y mod 4 = 0 \<and> (y mod 400 = 0 \<or> y mod 100 \<noteq> 0))"

definition days_in_month :: "int \<Rightarrow> int \<Rightarrow> int" where
  "days_in_month y m =
     (if m = 2 then (if is_leap y then 29 else 28)
      else if m = 4 \<or> m = 6 \<or> m = 9 \<or> m = 11 then 30 else 31)"

text \<open>The range checks of the \<open>datetime\<close> constructor (MINYEAR is 1, MAXYEAR is 9999).\<close>

definition datetime_fields_ok :: "int \<Rightarrow> int \<Rightarrow> int \<Rightarrow> int \<Rightarrow> int \<Rightarrow> int \<Rightarrow> bool" where
  "datetime_fields_ok y mo d h mi s =
     (1 \<le> y \<and> y \<le> 9999 \<and> 1 \<le> mo \<and> mo \<le> 12 \<and> 1 \<le> d \<and> d \<le> days_in_month y mo
      \<and> 0 \<le> h \<and> h \<le> 23 \<and> 0 \<le> mi \<and> mi \<le> 59 \<and> 0 \<le> s \<and> s \<le> 59)"

text \<open>Every \<open>datetime\<close> object satisfies the constructor's checks.\<close>

definition valid_datetime :: "datetime \<Rightarrow> bool" where
  "valid_datetime t =
     (datetime_fields_ok (year t) (month t) (day t) (hour t) (minute t) (second t)
      \<and> 0 \<le> microsecond t \<and> microsecond t < 1000000)"

subsection \<open>Headers and entries (data)\<close>

record header =
  type' :: int
  size' :: int
  created :: datetime
  modified :: datetime
  sectorAddress :: int
  unk1 :: int
  unk2 :: int
  unk3 :: int

text \<open>
  The two entry classes. A \<open>File\<close> object always has a \<open>content\<close> attribute; a
  \<open>Directory\<close> object has one only after \<open>PSU.write\<close> has assigned it
  (\<open>attr_content\<close>, \<open>None\<close> until then). The class of the object and the field
  \<open>header.type\<close> are independent in the source, and so they are here.
\<close>

datatype entry =
    File (name: str) (header: header) (padding: bytes) (content: bytes)
  | Directory (name: str) (header: header) (padding: bytes) (attr_content: "bytes option")

datatype error =
    EntryNotFoundException str
  | UnknownEntryTypeException int str
  | EntryNotAFileException entry
  | StructError
  | ValueError
  | UnicodeDecodeError
  | UnicodeEncodeError


text \<open>Sequencing of computations that may raise: the first exception wins.\<close>

definition bindE :: "error + 'a \<Rightarrow> ('a \<Rightarrow> error + 'b) \<Rightarrow> error + 'b" where
  "bindE r f = (case r of Inl e \<Rightarrow> Inl e | Inr x \<Rightarrow> f x)"

definition datetime_init :: "int \<Rightarrow> int \<Rightarrow> int \<Rightarrow> int \<Rightarrow> int \<Rightarrow> int \<Rightarrow> error + datetime" where
  "datetime_init y mo d h mi s =
     (if datetime_fields_ok y mo d h mi s
      then Inr \<lparr>year = y, month = mo, day = d, hour = h, minute = mi, second = s,
                microsecond = 0\<rparr>
      else Inl ValueError)"

subsection \<open>The UTF-8 codec (\<open>str.encode('UTF-8')\<close>, \<open>bytes.decode('UTF-8')\<close>)\<close>

definition encode_char :: "nat \<Rightarrow> error + bytes" where
  "encode_char c =
    (if c < 0x80 then Inr [of_nat c]
     else if c < 0x800 then Inr [of_nat (0xC0 + c div 0x40), of_nat (0x80 + c mod 0x40)]
     else if 0xD800 \<le> c \<and> c < 0xE000 then Inl UnicodeEncodeError
     else if c < 0x10000 then
       Inr [of_nat (0xE0 + c div 0x1000), of_nat (0x80 + c div 0x40 mod 0x40),
            of_nat (0x80 + c mod 0x40)]
     else if c < 0x110000 then
       Inr [of_nat (0xF0 + c div 0x40000), of_nat (0x80 + c div 0x1000 mod 0x40),
            of_nat (0x80 + c div 0x40 mod 0x40), of_nat (0x80 + c mod 0x40)]
     else Inl UnicodeEncodeError)"

fun encode_UTF8 :: "str \<Rightarrow> error + bytes" where
  "encode_UTF8 [] = Inr []"
| "encode_UTF8 (c # cs) =
     bindE (encode_char c) (\<lambda>bs. bindE (encode_UTF8 cs) (\<lambda>rest. Inr (bs @ rest)))"

definition is_continuation :: "byte \<Rightarrow> bool" where
  "is_continuation b = (0x80 \<le> unat b \<and> unat b < 0xC0)"

text \<open>
  A decoded value is accepted when it is not an overlong form (\<open>lo\<close> is the least code
  point of its length), not a surrogate, and at most U+10FFFF.
\<close>

definition scalar_ok :: "nat \<Rightarrow> nat \<Rightarrow> bool" where
  "scalar_ok lo c = (lo \<le> c \<and> c < 0x110000 \<and> (c < 0xD800 \<or> 0xE000 \<le> c))"

fun decode_UTF8 :: "bytes \<Rightarrow> error + str" where
  "decode_UTF8 [] = Inr []"
| "decode_UTF8 (b # bs) =
    (if unat b < 0x80 then bindE (decode_UTF8 bs) (\<lambda>cs. Inr (unat b # cs))
     else if unat b < 0xC0 then Inl UnicodeDecodeError
     else if unat b < 0xE0 then
       (case bs of
          b1 # r \<Rightarrow>
            (let c = (unat b - 0xC0) * 0x40 + (unat b1 - 0x80)
             in if is_continuation b1 \<and> scalar_ok 0x80 c
                then bindE (decode_UTF8 r) (\<lambda>cs. Inr (c # cs))
                else Inl UnicodeDecodeError)
        | _ \<Rightarrow> Inl UnicodeDecodeError)
     else if unat b < 0xF0 then
       (case bs of
          b1 # b2 # r \<Rightarrow>
            (let c = (unat b - 0xE0) * 0x1000 + (unat b1 - 0x80) * 0x40 + (unat b2 - 0x80)
             in if is_continuation b1 \<and> is_continuation b2 \<and> scalar_ok 0x800 c
                then bindE (decode_UTF8 r) (\<lambda>cs. Inr (c # cs))
                else Inl UnicodeDecodeError)
        | _ \<Rightarrow> Inl UnicodeDecodeError)
     else if unat b < 0xF8 then
       (case bs of
          b1 # b2 # b3 # r \<Rightarrow>
            (let c = (unat b - 0xF0) * 0x40000 + (unat b1 - 0x80) * 0x1000
                     + (unat b2 - 0x80) * 0x40 + (unat b3 - 0x80)
             in if is_continuation b1 \<and> is_continuation b2 \<and> is_continuation b3
                   \<and> scalar_ok 0x10000 c
                then bindE (decode_UTF8 r) (\<lambda>cs. Inr (c # cs))
                else Inl UnicodeDecodeError)
        | _ \<Rightarrow> Inl UnicodeDecodeError)
     else Inl UnicodeDecodeError)"

subsection \<open>\<open>struct.pack\<close> and \<open>struct.unpack\<close>, little-endian unsigned fields\<close>

fun le_bytes :: "nat \<Rightarrow> nat \<Rightarrow> bytes" where
  "le_bytes 0 v = []"
| "le_bytes (Suc n) v = of_nat (v mod 256) # le_bytes n (v div 256)"

fun le_value :: "bytes \<Rightarrow> nat" where
  "le_value [] = 0"
| "le_value (b # bs) = unat b + 256 * le_value bs"

text \<open>
  A format is the list of its fields' widths in bytes. Packing raises \<open>struct.error\<close>
  when a value does not fit its field or the number of values is wrong; unpacking raises
  it when the buffer's length is not the format's size.
\<close>

fun struct_pack :: "nat list \<Rightarrow> int list \<Rightarrow> error + bytes" where
  "struct_pack [] [] = Inr []"
| "struct_pack (w # ws) (v # vs) =
     (if 0 \<le> v \<and> v < 256 ^ w
      then bindE (struct_pack ws vs) (\<lambda>rest. Inr (le_bytes w (nat v) @ rest))
      else Inl StructError)"
| "struct_pack _ _ = Inl StructError"

fun unpack_fields :: "nat list \<Rightarrow> bytes \<Rightarrow> int list" where
  "unpack_fields [] data = []"
| "unpack_fields (w # ws) data = int (le_value (take w data)) # unpack_fields ws (drop w data)"

definition struct_unpack :: "nat list \<Rightarrow> bytes \<Rightarrow> error + int list" where
  "struct_unpack ws data =
     (if length data \<noteq> sum_list ws then Inl StructError else Inr (unpack_fields ws data))"

section \<open>\<open>header.py\<close>\<close>

text \<open>\<open>'<HHI6BHHHI6BH'\<close>\<close>

definition FORMAT :: "nat list" where
  "FORMAT = [2, 2, 4, 1, 1, 1, 1, 1, 1, 2, 2, 2, 4, 1, 1, 1, 1, 1, 1, 2]"

definition SIZE :: nat where
  "SIZE = 0x20"

definition Header_deserialize :: "bytes \<Rightarrow> error + header" where
  "Header_deserialize data =
     bindE (struct_unpack FORMAT data) (\<lambda>hdr.
     bindE (datetime_init (hdr ! 9) (hdr ! 8) (hdr ! 7) (hdr ! 6) (hdr ! 5) (hdr ! 4)) (\<lambda>c.
     bindE (datetime_init (hdr ! 19) (hdr ! 18) (hdr ! 17) (hdr ! 16) (hdr ! 15) (hdr ! 14)) (\<lambda>m.
     Inr \<lparr>type' = hdr ! 0, size' = hdr ! 2, created = c, modified = m,
          sectorAddress = hdr ! 10, unk1 = hdr ! 1, unk2 = hdr ! 11, unk3 = hdr ! 12\<rparr>)))"

text \<open>
  \<open>Header(type, size)\<close> with the defaults of the other arguments. The defaults of
  \<open>created\<close> and \<open>modified\<close> are two calls of \<open>datetime.now()\<close>, evaluated
  one after the other when the class is defined: \<open>now\<close> is the pair of their values.
\<close>

definition Header_init :: "datetime \<times> datetime \<Rightarrow> int \<Rightarrow> int \<Rightarrow> header" where
  "Header_init now t s =
     \<lparr>type' = t, size' = s, created = fst now, modified = snd now,
      sectorAddress = 0, unk1 = 0, unk2 = 0, unk3 = 0\<rparr>"

definition Header_serialize :: "header \<Rightarrow> error + bytes" where
  "Header_serialize h =
     struct_pack FORMAT
       [type' h, unk1 h, size' h,
        0, second (created h), minute (created h), hour (created h),
        day (created h), month (created h), year (created h),
        sectorAddress h, unk2 h, unk3 h,
        0, second (modified h), minute (modified h), hour (modified h),
        day (modified h), month (modified h), year (modified h)]"

section \<open>\<open>entry.py\<close>\<close>

definition DIRECTORY :: int where
  "DIRECTORY = 0x8427"

definition FILE :: int where
  "FILE = 0x8497"

definition PADDING_SIZE :: nat where
  "PADDING_SIZE = 32"

definition NAME_SIZE :: nat where
  "NAME_SIZE = 448"

definition PAGE_SIZE :: int where
  "PAGE_SIZE = 1024"

definition set_size :: "int \<Rightarrow> entry \<Rightarrow> entry" where
  "set_size s e =
     (case e of
        File n h p c \<Rightarrow> File n (h\<lparr>size' := s\<rparr>) p c
      | Directory n h p a \<Rightarrow> Directory n (h\<lparr>size' := s\<rparr>) p a)"

definition set_content :: "bytes \<Rightarrow> entry \<Rightarrow> entry" where
  "set_content d e =
     (case e of
        File n h p c \<Rightarrow> File n h p d
      | Directory n h p a \<Rightarrow> Directory n h p (Some d))"

text \<open>The \<open>content\<close> attribute of an entry object, when it has one.\<close>

definition content_of :: "entry \<Rightarrow> bytes option" where
  "content_of e = (case e of File n h p c \<Rightarrow> Some c | Directory n h p a \<Rightarrow> a)"

definition getPadding :: "bytes \<Rightarrow> bytes" where
  "getPadding data = slice 0 PADDING_SIZE data"

definition getName :: "bytes \<Rightarrow> error + str" where
  "getName data = bindE (decode_UTF8 (slice 0 NAME_SIZE data)) (\<lambda>s. Inr (rstrip 0 s))"

definition getContentPaddingSize :: "int \<Rightarrow> int" where
  "getContentPaddingSize contentSize =
     (let remaining = PAGE_SIZE - (contentSize mod PAGE_SIZE)
      in if remaining = PAGE_SIZE then 0 else remaining)"

definition File_deserialize :: "header \<Rightarrow> bytes \<Rightarrow> str \<Rightarrow> bytes \<Rightarrow> entry \<times> int" where
  "File_deserialize hdr pad nm data =
     (let content = slice_upto (size' hdr) data;
          offset = size' hdr + getContentPaddingSize (size' hdr)
      in (File nm hdr pad content, offset))"

definition Directory_deserialize :: "header \<Rightarrow> bytes \<Rightarrow> str \<Rightarrow> bytes \<Rightarrow> entry \<times> int" where
  "Directory_deserialize hdr pad nm data = (Directory nm hdr pad None, 0)"

definition Entry_deserialize :: "bytes \<Rightarrow> error + (entry \<times> int)" where
  "Entry_deserialize data =
     bindE (Header_deserialize (slice 0 SIZE data)) (\<lambda>hdr.
       let offset = SIZE;
           pad = getPadding (slice offset (offset + PADDING_SIZE) data);
           offset = offset + PADDING_SIZE
       in bindE (getName (slice offset (offset + NAME_SIZE) data)) (\<lambda>nm.
            let offset = offset + NAME_SIZE
            in if type' hdr = FILE then
                 (case File_deserialize hdr pad nm (drop offset data) of
                    (e, entrySize) \<Rightarrow> Inr (e, int offset + entrySize))
               else if type' hdr = DIRECTORY then
                 (case Directory_deserialize hdr pad nm (drop offset data) of
                    (e, entrySize) \<Rightarrow> Inr (e, int offset + entrySize))
               else Inl (UnknownEntryTypeException (type' hdr) nm)))"

text \<open>\<open>File(name, content)\<close> and \<open>Directory(name)\<close> with default header and padding.\<close>

definition File_init :: "datetime \<times> datetime \<Rightarrow> str \<Rightarrow> bytes \<Rightarrow> entry" where
  "File_init now nm c =
     File nm (Header_init now FILE (int (length c))) (replicate PADDING_SIZE 0) c"

definition Directory_init :: "datetime \<times> datetime \<Rightarrow> str \<Rightarrow> entry" where
  "Directory_init now nm =
     Directory nm (Header_init now DIRECTORY 0) (replicate PADDING_SIZE 0) None"

text \<open>\<open>Entry.serialize\<close>: header, padding, then the name left-justified in its field.\<close>

definition Entry_serialize :: "entry \<Rightarrow> error + bytes" where
  "Entry_serialize e =
     bindE (Header_serialize (header e)) (\<lambda>data.
       let data = data @ padding e
       in bindE (encode_UTF8 (name e)) (\<lambda>nm. Inr (data @ ljust NAME_SIZE 0 nm)))"

text \<open>
  \<open>File.serialize\<close> assigns \<open>header.size\<close> first; the entry is returned together with
  the bytes because the assignment mutates it.
\<close>

definition File_serialize :: "str \<Rightarrow> header \<Rightarrow> bytes \<Rightarrow> bytes \<Rightarrow> error + (bytes \<times> entry)" where
  "File_serialize n h p c =
     (let self = File n (h\<lparr>size' := int (length c)\<rparr>) p c
      in bindE (Entry_serialize self) (\<lambda>data.
           if size' (header self) > 0
           then Inr (data @ content self
                     @ replicate (nat (getContentPaddingSize (size' (header self)))) 0, self)
           else Inr (data, self)))"

text \<open>\<open>entry.serialize()\<close>: the method of the object's class.\<close>

definition serialize :: "entry \<Rightarrow> error + (bytes \<times> entry)" where
  "serialize e =
     (case e of
        File n h p c \<Rightarrow> File_serialize n h p c
      | Directory n h p a \<Rightarrow> bindE (Entry_serialize e) (\<lambda>data. Inr (data, e)))"

section \<open>\<open>psu.py\<close>\<close>

record psu =
  filepath :: str
  entries :: "entry list"

definition PSU_init :: "str \<Rightarrow> psu" where
  "PSU_init fp = \<lparr>filepath = fp, entries = []\<rparr>"

definition PSU_add :: "psu \<Rightarrow> entry \<Rightarrow> psu" where
  "PSU_add p e = p\<lparr>entries := entries p @ [e]\<rparr>"

text \<open>\<open>PSU.create\<close>; \<open>base\<close> is the file name without directory and extension.\<close>

definition PSU_create :: "datetime \<times> datetime \<Rightarrow> str \<Rightarrow> str \<Rightarrow> psu" where
  "PSU_create now fp base =
     PSU_add (PSU_add (PSU_add (PSU_init fp) (Directory_init now base)) (Directory_init now [46]))
         (Directory_init now [46, 46])"

text \<open>
  \<open>PSU.__index\<close>: the first position whose entry has the name (and the type, when one
  is given); \<open>i\<close> is the position of the head of the list still to be scanned.
\<close>

fun index_loop :: "entry list \<Rightarrow> nat \<Rightarrow> str \<Rightarrow> int option \<Rightarrow> error + nat" where
  "index_loop [] i entryName ty = Inl (EntryNotFoundException entryName)"
| "index_loop (e # es) i entryName ty =
     (if name e = entryName \<and> (ty = None \<or> ty = Some (type' (header e)))
      then Inr i
      else index_loop es (Suc i) entryName ty)"

definition PSU_index :: "psu \<Rightarrow> str \<Rightarrow> int option \<Rightarrow> error + nat" where
  "PSU_index p entryName ty = index_loop (entries p) 0 entryName ty"

definition PSU_get :: "psu \<Rightarrow> str \<Rightarrow> int option \<Rightarrow> error + entry" where
  "PSU_get p entryName ty = bindE (PSU_index p entryName ty) (\<lambda>i. Inr (entries p ! i))"

text \<open>\<open>PSU.has\<close> catches the only exception that \<open>get\<close> raises.\<close>

definition PSU_has :: "psu \<Rightarrow> str \<Rightarrow> bool" where
  "PSU_has p entryName = (case PSU_get p entryName None of Inr e \<Rightarrow> True | Inl err \<Rightarrow> False)"

text \<open>The \<open>data\<close> argument of \<open>PSU.write\<close> is a \<open>bytes\<close> or a \<open>str\<close> object.\<close>

datatype data = Bytes bytes | Str str

definition to_bytes :: "data \<Rightarrow> error + bytes" where
  "to_bytes d = (case d of Str s \<Rightarrow> encode_UTF8 s | Bytes b \<Rightarrow> Inr b)"

text \<open>
  \<open>PSU.write\<close> returns the archive, updated at the position that \<open>get\<close> found or
  extended by a new \<open>File\<close>, and the entry written.
\<close>

definition PSU_write :: "datetime \<times> datetime \<Rightarrow> psu \<Rightarrow> str \<Rightarrow> data \<Rightarrow> error + (psu \<times> entry)" where
  "PSU_write now p entryName d =
     bindE (to_bytes d) (\<lambda>dat.
       if PSU_has p entryName then
         bindE (PSU_index p entryName None) (\<lambda>i.
           let entry = set_size (int (length dat)) (set_content dat (entries p ! i))
           in Inr (p\<lparr>entries := (entries p)[i := entry]\<rparr>, entry))
       else
         (let entry = File_init now entryName dat
          in Inr (PSU_add p entry, entry)))"

definition PSU_delete :: "psu \<Rightarrow> str \<Rightarrow> error + psu" where
  "PSU_delete p entryName =
     bindE (PSU_index p entryName None) (\<lambda>i.
       Inr (p\<lparr>entries := take i (entries p) @ drop (Suc i) (entries p)\<rparr>))"

text \<open>
  The body of the loop of \<open>PSU.save\<close>, first half: the size of an entry whose header
  type is DIRECTORY is assigned; \<open>n\<close> is \<open>len(self.entries)\<close>.
\<close>

definition resolve_size :: "nat \<Rightarrow> entry \<Rightarrow> entry" where
  "resolve_size n e =
     (if type' (header e) = DIRECTORY then
        (if name e = [46] \<or> name e = [46, 46] then set_size 0 e
         else set_size (int n - 1) e)
      else e)"

text \<open>
  The loop of \<open>PSU.save\<close> over the entries: each entry has its size resolved and is then
  serialized, and the bytes are appended in list order. The result is the data written
  to the file and the entries as the loop leaves them.
\<close>

fun save_loop :: "nat \<Rightarrow> entry list \<Rightarrow> error + (bytes \<times> entry list)" where
  "save_loop n [] = Inr ([], [])"
| "save_loop n (e # es) =
     bindE (serialize (resolve_size n e)) (\<lambda>(bs, e').
     bindE (save_loop n es) (\<lambda>(data, es'). Inr (bs @ data, e' # es')))"

definition PSU_save :: "psu \<Rightarrow> error + (bytes \<times> psu)" where
  "PSU_save p =
     bindE (save_loop (length (entries p)) (entries p)) (\<lambda>(data, es).
       Inr (data, p\<lparr>entries := es\<rparr>))"

section \<open>\<open>PSU.__parse\<close>\<close>





section \<open>Predicates and functions used in the statements\<close>

text \<open>
  Every field of the header fits its width in the format, and the timestamps are
  \<open>datetime\<close> objects: \<open>struct.pack\<close> accepts the header.
\<close>

definition header_packs :: "header \<Rightarrow> bool" where
  "header_packs h =
     (0 \<le> type' h \<and> type' h < 65536 \<and> 0 \<le> unk1 h \<and> unk1 h < 65536
      \<and> 0 \<le> size' h \<and> size' h < 4294967296
      \<and> 0 \<le> sectorAddress h \<and> sectorAddress h < 65536
      \<and> 0 \<le> unk2 h \<and> unk2 h < 65536 \<and> 0 \<le> unk3 h \<and> unk3 h < 4294967296
      \<and> valid_datetime (created h) \<and> valid_datetime (modified h))"

text \<open>
  The two passes of the specification: first every directory size is recomputed, then
  every entry is encoded.
\<close>

fun encode_all :: "entry list \<Rightarrow> error + (bytes \<times> entry list)" where
  "encode_all [] = Inr ([], [])"
| "encode_all (e # es) =
     bindE (serialize e) (\<lambda>(bs, e').
     bindE (encode_all es) (\<lambda>(data, es'). Inr (bs @ data, e' # es')))"

definition save_two_pass :: "psu \<Rightarrow> error + (bytes \<times> psu)" where
  "save_two_pass p =
     (let es = map (resolve_size (length (entries p))) (entries p)
      in bindE (encode_all es) (\<lambda>(data, es'). Inr (data, p\<lparr>entries := es'\<rparr>)))"

text \<open>The name encodes, and the header packs with the size that serializing gives it.\<close>

definition encodable :: "str \<Rightarrow> bool" where
  "encodable s = (case encode_UTF8 s of Inl err \<Rightarrow> False | Inr bs \<Rightarrow> True)"

definition entry_packs :: "entry \<Rightarrow> bool" where
  "entry_packs e =
     (encodable (name e)
      \<and> (case e of
            File nm h pd c \<Rightarrow> header_packs (h\<lparr>size' := int (length c)\<rparr>)
          | Directory nm h pd a \<Rightarrow> header_packs h))"

text \<open>The fields of a timestamp sub-record that starts at byte \<open>k\<close>.\<close>

definition ts_second :: "nat \<Rightarrow> bytes \<Rightarrow> int" where
  "ts_second k data = int (unat (data ! (k + 1)))"

definition ts_minute :: "nat \<Rightarrow> bytes \<Rightarrow> int" where
  "ts_minute k data = int (unat (data ! (k + 2)))"

definition ts_hour :: "nat \<Rightarrow> bytes \<Rightarrow> int" where
  "ts_hour k data = int (unat (data ! (k + 3)))"

definition ts_day :: "nat \<Rightarrow> bytes \<Rightarrow> int" where
  "ts_day k data = int (unat (data ! (k + 4)))"

definition ts_month :: "nat \<Rightarrow> bytes \<Rightarrow> int" where
  "ts_month k data = int (unat (data ! (k + 5)))"

definition ts_year :: "nat \<Rightarrow> bytes \<Rightarrow> int" where
  "ts_year k data = int (unat (data ! (k + 6)) + 256 * unat (data ! (k + 7)))"

text \<open>The sub-record passes the checks of the \<open>datetime\<close> constructor.\<close>

definition timestamp_ok :: "nat \<Rightarrow> bytes \<Rightarrow> bool" where
  "timestamp_ok k data =
     datetime_fields_ok (ts_year k data) (ts_month k data) (ts_day k data)
       (ts_hour k data) (ts_minute k data) (ts_second k data)"

text \<open>The conditions of a valid calendar date-time as the specification lists them.\<close>

definition listed_conditions :: "nat \<Rightarrow> bytes \<Rightarrow> bool" where
  "listed_conditions k data =
     (1 \<le> ts_month k data \<and> ts_month k data \<le> 12
      \<and> 1 \<le> ts_day k data \<and> ts_day k data \<le> days_in_month (ts_year k data) (ts_month k data)
      \<and> ts_hour k data \<le> 23 \<and> ts_minute k data \<le> 59 \<and> ts_second k data \<le> 59
      \<and> 1 \<le> ts_year k data)"

text \<open>
  The name fits the name field (at most 448 bytes in UTF-8) and has no trailing NUL.
\<close>

definition name_fits :: "str \<Rightarrow> bool" where
  "name_fits s =
     ((case encode_UTF8 s of Inl err \<Rightarrow> False | Inr bs \<Rightarrow> length bs \<le> NAME_SIZE)
      \<and> (s = [] \<or> last s \<noteq> 0))"

text \<open>A header as decoding returns it: the timestamps have no microseconds.\<close>

definition decoded_header :: "header \<Rightarrow> header" where
  "decoded_header h =
     h\<lparr>created := (created h)\<lparr>microsecond := 0\<rparr>,
       modified := (modified h)\<lparr>microsecond := 0\<rparr>\<rparr>"

text \<open>
  The invariants of an entry of the data model: the header type is the type of the
  entry's class, the padding block has 32 bytes, and the timestamps are \<open>datetime\<close>
  objects.
\<close>

definition well_formed :: "entry \<Rightarrow> bool" where
  "well_formed e =
     ((case e of
         File nm h pd c \<Rightarrow> type' h = FILE
       | Directory nm h pd a \<Rightarrow> type' h = DIRECTORY)
      \<and> length (padding e) = PADDING_SIZE
      \<and> valid_datetime (created (header e)) \<and> valid_datetime (modified (header e)))"

text \<open>The content of a \<open>File\<close>; a \<open>Directory\<close> has no content on the wire.\<close>

definition file_content :: "entry \<Rightarrow> bytes option" where
  "file_content e = (case e of File nm h pd c \<Rightarrow> Some c | Directory nm h pd a \<Rightarrow> None)"

text \<open>The entry that decoding returns for the bytes of a serialized entry.\<close>

definition reparsed :: "entry \<Rightarrow> entry" where
  "reparsed e =
     (case e of
        File nm h pd c \<Rightarrow> File nm (decoded_header h) pd c
      | Directory nm h pd a \<Rightarrow> Directory nm (decoded_header h) pd None)"

section \<open>Sample values\<close>

definition now0 :: datetime where
  "now0 = \<lparr>year = 2024, month = 2, day = 29, hour = 13, minute = 37, second = 59,
           microsecond = 250000\<rparr>"

definition now1 :: datetime where
  "now1 = \<lparr>year = 2024, month = 2, day = 29, hour = 13, minute = 37, second = 59,
           microsecond = 250007\<rparr>"

definition defaults0 :: "datetime \<times> datetime" where
  "defaults0 = (now0, now1)"

text \<open>
  An archive as \<open>PSU.load\<close> could have left it: three directories that carry sizes
  read from a file, and one file whose header size is stale.
\<close>

definition demo :: psu where
  "demo = \<lparr>filepath = [115],
     entries =
       [Directory [115] (Header_init defaults0 DIRECTORY 7) (replicate 32 0) None,
        Directory [46] (Header_init defaults0 DIRECTORY 5) (replicate 32 0) None,
        Directory [46, 46] (Header_init defaults0 DIRECTORY 9) (replicate 32 0) None,
        File [102] (Header_init defaults0 FILE 0) (replicate 32 0) [1, 2, 3]]\<rparr>"

text \<open>
  A header as it stands in a file: type bytes \<open>t0 t1\<close>, size byte \<open>s0\<close>, and both
  timestamps 2024-02-29 13:37:59.
\<close>

definition sample_header :: "byte \<Rightarrow> byte \<Rightarrow> byte \<Rightarrow> bytes" where
  "sample_header t0 t1 s0 =
     [t0, t1, 0, 0, s0, 0, 0, 0,
      0, 59, 37, 13, 29, 2, 0xE8, 0x07,
      0, 0, 0, 0, 0, 0, 0, 0,
      0, 59, 37, 13, 29, 2, 0xE8, 0x07]"



section \<open>Basic facts\<close>

lemma bindE_simps [simp]: "bindE (Inl e) f = Inl e" "bindE (Inr x) f = f x"
  by (simp_all add: bindE_def)

lemma bindE_Inr_iff: "bindE r f = Inr y \<longleftrightarrow> (\<exists>x. r = Inr x \<and> f x = Inr y)"
  by (cases r) simp_all

lemma bindE_Inl_iff: "bindE r f = Inl e \<longleftrightarrow> (r = Inl e \<or> (\<exists>x. r = Inr x \<and> f x = Inl e))"
  by (cases r) simp_all

lemma unpack_fields_nonneg: "\<forall>v \<in> set (unpack_fields ws data). 0 \<le> v"
  by (induction ws arbitrary: data) auto

lemma length_unpack_fields: "length (unpack_fields ws data) = length ws"
  by (induction ws arbitrary: data) auto


section \<open>Page alignment of file content\<close>

lemma getContentPaddingSize_mod: "getContentPaddingSize n = (1024 - n mod 1024) mod 1024"
proof -
  have b: "0 \<le> n mod 1024" "n mod 1024 < 1024" by simp_all
  show ?thesis
  proof (cases "n mod 1024 = 0")
    case True
    then show ?thesis by (simp add: getContentPaddingSize_def PAGE_SIZE_def Let_def)
  next
    case False
    with b have "0 \<le> 1024 - n mod 1024" "1024 - n mod 1024 < 1024" by linarith+
    then have eq: "(1024 - n mod 1024) mod 1024 = 1024 - n mod 1024"
      by (rule mod_pos_pos_trivial)
    have "getContentPaddingSize n = 1024 - n mod 1024"
      using False by (simp add: getContentPaddingSize_def PAGE_SIZE_def Let_def)
    then show ?thesis by (simp only: eq)
  qed
qed

text \<open>
  Claim C3. For every content length \<open>n\<close> the pad computed by
  \<open>File.getContentPaddingSize\<close> is \<open>(1024 - n % 1024) % 1024\<close>; for the lengths 0, 1,
  1023, 1024, 1025 and 2048 it is 0, 1023, 1, 0, 1023 and 0, so an exact multiple of 1024
  (0 included) gets no padding. \<open>File.serialize\<close> emits the header, padding and name
  bytes, then the content, then exactly that many zero bytes.
\<close>

theorem padding_size_formula:
  "getContentPaddingSize n = (1024 - n mod 1024) mod 1024
   \<and> getContentPaddingSize 0 = 0 \<and> getContentPaddingSize 1 = 1023
   \<and> getContentPaddingSize 1023 = 1 \<and> getContentPaddingSize 1024 = 0
   \<and> getContentPaddingSize 1025 = 1023 \<and> getContentPaddingSize 2048 = 0
   \<and> File_serialize nm h p c =
       bindE (Entry_serialize (File nm (h\<lparr>size' := int (length c)\<rparr>) p c)) (\<lambda>d.
         Inr (d @ c @ replicate (nat ((1024 - int (length c) mod 1024) mod 1024)) 0,
              File nm (h\<lparr>size' := int (length c)\<rparr>) p c))"
proof -
  have "File_serialize nm h p c =
       bindE (Entry_serialize (File nm (h\<lparr>size' := int (length c)\<rparr>) p c)) (\<lambda>d.
         Inr (d @ c @ replicate (nat ((1024 - int (length c) mod 1024) mod 1024)) 0,
              File nm (h\<lparr>size' := int (length c)\<rparr>) p c))"
    by (cases "c = []") (simp_all add: File_serialize_def Let_def getContentPaddingSize_mod)
  moreover have "getContentPaddingSize 0 = 0 \<and> getContentPaddingSize 1 = 1023
   \<and> getContentPaddingSize 1023 = 1 \<and> getContentPaddingSize 1024 = 0
   \<and> getContentPaddingSize 1025 = 1023 \<and> getContentPaddingSize 2048 = 0"
    by (simp add: getContentPaddingSize_def PAGE_SIZE_def Let_def)
  ultimately show ?thesis using getContentPaddingSize_mod [of n] by (simp only: simp_thms)
qed

section \<open>Header decoding\<close>





section \<open>Packing and unpacking\<close>

lemma length_le_bytes [simp]: "length (le_bytes n v) = n"
  by (induction n arbitrary: v) simp_all

lemma le_value_le_bytes: "v < 256 ^ n \<Longrightarrow> le_value (le_bytes n v) = v"
proof (induction n arbitrary: v)
  case 0
  then show ?case by simp
next
  case (Suc n)
  then have "v div 256 < 256 ^ n"
    by (simp add: less_mult_imp_div_less mult.commute)
  then have "le_value (le_bytes n (v div 256)) = v div 256" by (rule Suc.IH)
  moreover have "unat (of_nat (v mod 256) :: byte) = v mod 256"
    by (simp add: unat_of_nat)
  ultimately show ?case by simp
qed

lemma struct_pack_length:
  "struct_pack ws vs = Inr bs \<Longrightarrow> length bs = sum_list ws \<and> length vs = length ws"
proof (induction ws vs arbitrary: bs rule: struct_pack.induct)
  case 1
  then show ?case by simp
next
  case (2 w ws v vs)
  from "2.prems" obtain rest where r: "0 \<le> v" "v < 256 ^ w" "struct_pack ws vs = Inr rest"
    "bs = le_bytes w (nat v) @ rest"
    by (auto simp: bindE_Inr_iff split: if_splits)
  from "2.IH" [OF _ r(3)] r(1,2) have "length rest = sum_list ws \<and> length vs = length ws" by simp
  with r(4) show ?case by simp
qed simp_all

lemma struct_pack_unpack_fields:
  "struct_pack ws vs = Inr bs \<Longrightarrow> unpack_fields ws (bs @ rest) = vs"
proof (induction ws vs arbitrary: bs rule: struct_pack.induct)
  case 1
  then show ?case by simp
next
  case (2 w ws v vs)
  from "2.prems" obtain tl where r: "0 \<le> v" "v < 256 ^ w" "struct_pack ws vs = Inr tl"
    "bs = le_bytes w (nat v) @ tl"
    by (auto simp: bindE_Inr_iff split: if_splits)
  from "2.IH" [OF _ r(3)] r(1,2) have ih: "unpack_fields ws (tl @ rest) = vs" by simp
  have "nat v < 256 ^ w" using r(1,2) by (simp add: nat_less_iff)
  then have "le_value (le_bytes w (nat v)) = nat v" by (rule le_value_le_bytes)
  with r(1) r(4) ih show ?case by simp
qed simp_all


lemma unpack_fields_nth:
  "i < length ws \<Longrightarrow>
     unpack_fields ws data ! i = int (le_value (take (ws ! i) (drop (sum_list (take i ws)) data)))"
proof (induction ws arbitrary: i data)
  case Nil
  then show ?case by simp
next
  case (Cons w ws)
  show ?case
  proof (cases i)
    case 0
    then show ?thesis by simp
  next
    case (Suc k)
    with Cons.prems have "k < length ws" by simp
    from Cons.IH [OF this, of "drop w data"] Suc show ?thesis by (simp add: add.commute)
  qed
qed

lemma struct_pack_total:
  "list_all2 (\<lambda>w v. 0 \<le> v \<and> v < 256 ^ w) ws vs \<Longrightarrow> \<exists>bs. struct_pack ws vs = Inr bs"
proof (induction ws vs rule: list_all2_induct)
  case Nil
  then show ?case by simp
next
  case (Cons w ws v vs)
  then show ?case by auto
qed

lemma days_in_month_le: "days_in_month y m \<le> 31"
  by (simp add: days_in_month_def)

lemma valid_datetime_ranges:
  assumes "valid_datetime t"
  shows "0 \<le> second t \<and> second t < 256 \<and> 0 \<le> minute t \<and> minute t < 256
    \<and> 0 \<le> hour t \<and> hour t < 256 \<and> 0 \<le> day t \<and> day t < 256
    \<and> 0 \<le> month t \<and> month t < 256 \<and> 0 \<le> year t \<and> year t < 65536"
proof -
  have "day t \<le> 31"
    using assms days_in_month_le [of "year t" "month t"]
    by (simp add: valid_datetime_def datetime_fields_ok_def)
  with assms show ?thesis
    by (simp add: valid_datetime_def datetime_fields_ok_def)
qed

lemma Header_serialize_total:
  assumes "header_packs h"
  shows "\<exists>bs. Header_serialize h = Inr bs"
proof -
  have c: "valid_datetime (created h)" and m: "valid_datetime (modified h)"
    using assms by (simp_all add: header_packs_def)
  note rc = valid_datetime_ranges [OF c] and rm = valid_datetime_ranges [OF m]
  have r: "0 \<le> type' h" "type' h < 65536" "0 \<le> unk1 h" "unk1 h < 65536"
      "0 \<le> size' h" "size' h < 4294967296"
      "0 \<le> sectorAddress h" "sectorAddress h < 65536"
      "0 \<le> unk2 h" "unk2 h < 65536" "0 \<le> unk3 h" "unk3 h < 4294967296"
    using assms by (simp_all add: header_packs_def)
  show ?thesis
    unfolding Header_serialize_def FORMAT_def
    by (rule struct_pack_total) (simp add: r rc rm)
qed

lemma Header_serialize_length:
  assumes "Header_serialize h = Inr bs"
  shows "length bs = 32"
proof -
  have "length bs = sum_list FORMAT"
    using assms struct_pack_length unfolding Header_serialize_def by blast
  then show ?thesis by (simp add: FORMAT_def)
qed

lemma Header_serialize_size_bytes:
  assumes "Header_serialize h = Inr hb"
  shows "int (le_value (slice 4 8 (hb @ rest))) = size' h"
proof -
  have l: "length hb = 32" using assms by (rule Header_serialize_length)
  have "unpack_fields FORMAT (hb @ rest) ! 2 = size' h"
    using struct_pack_unpack_fields [OF assms [unfolded Header_serialize_def], of rest] by simp
  moreover have "unpack_fields FORMAT (hb @ rest) ! 2
      = int (le_value (take (FORMAT ! 2) (drop (sum_list (take 2 FORMAT)) (hb @ rest))))"
    by (rule unpack_fields_nth) (simp add: FORMAT_def)
  moreover have "FORMAT ! 2 = 4" "sum_list (take 2 FORMAT) = 4" by (simp_all add: FORMAT_def)
  ultimately show ?thesis by (simp add: slice_def)
qed

section \<open>Headers that decoding returns\<close>

lemma valid_datetime_init:
  "datetime_init y mo d h mi s = Inr t \<Longrightarrow> valid_datetime t"
  by (auto simp: datetime_init_def valid_datetime_def split: if_splits)

lemma Header_deserialize_valid:
  assumes "Header_deserialize data = Inr h"
  shows "valid_datetime (created h)" "valid_datetime (modified h)"
proof -
  from assms obtain hdr c m where
    c: "datetime_init (hdr ! 9) (hdr ! 8) (hdr ! 7) (hdr ! 6) (hdr ! 5) (hdr ! 4) = Inr c"
    and m: "datetime_init (hdr ! 19) (hdr ! 18) (hdr ! 17) (hdr ! 16) (hdr ! 15) (hdr ! 14) = Inr m"
    and h: "created h = c" "modified h = m"
    by (auto simp: Header_deserialize_def bindE_Inr_iff)
  from valid_datetime_init [OF c] valid_datetime_init [OF m] h
  show "valid_datetime (created h)" "valid_datetime (modified h)" by simp_all
qed




section \<open>Serializing one entry\<close>

lemma File_serialize_unfold:
  "File_serialize n h p c =
     bindE (Entry_serialize (File n (h\<lparr>size' := int (length c)\<rparr>) p c)) (\<lambda>d.
       Inr (d @ c @ replicate (nat (getContentPaddingSize (int (length c)))) 0,
            File n (h\<lparr>size' := int (length c)\<rparr>) p c))"
  by (cases "c = []")
    (simp_all add: File_serialize_def Let_def getContentPaddingSize_def PAGE_SIZE_def)

lemma Entry_serialize_Inr:
  assumes "Entry_serialize e = Inr d"
  shows "\<exists>hb nm. Header_serialize (header e) = Inr hb \<and> encode_UTF8 (name e) = Inr nm
    \<and> d = hb @ padding e @ ljust NAME_SIZE 0 nm"
proof -
  from assms obtain hb where hb: "Header_serialize (header e) = Inr hb"
    by (cases "Header_serialize (header e)") (simp_all add: Entry_serialize_def)
  with assms obtain nm where nm: "encode_UTF8 (name e) = Inr nm"
    by (cases "encode_UTF8 (name e)") (simp_all add: Entry_serialize_def Let_def)
  with assms hb have "d = hb @ padding e @ ljust NAME_SIZE 0 nm"
    by (simp add: Entry_serialize_def Let_def)
  with hb nm show ?thesis by blast
qed

text \<open>
  Claim C7. \<open>File.serialize\<close> assigns \<open>header.size\<close> from the length of the
  content before the header is encoded: whatever size the header held, the entry it leaves
  has \<open>header.size = len(content)\<close>, the first 32 bytes emitted are the encoding of that
  header, and the size field of the emitted bytes (bytes 4 to 7, little-endian) is the
  length of the content.
\<close>

theorem file_serialize_assigns_size:
  assumes "File_serialize n h p c = Inr (bs, e)"
  shows "e = File n (h\<lparr>size' := int (length c)\<rparr>) p c
    \<and> size' (header e) = int (length (content e))
    \<and> (\<exists>hb. Header_serialize (header e) = Inr hb \<and> take 32 bs = hb)
    \<and> int (le_value (slice 4 8 bs)) = int (length c)"
proof -
  define e' where "e' = File n (h\<lparr>size' := int (length c)\<rparr>) p c"
  from assms obtain d where d: "Entry_serialize e' = Inr d"
    by (cases "Entry_serialize e'") (simp_all add: File_serialize_unfold e'_def)
  with assms have e: "e = e'"
    and bs: "bs = d @ c @ replicate (nat (getContentPaddingSize (int (length c)))) 0"
    by (simp_all add: File_serialize_unfold e'_def)
  from Entry_serialize_Inr [OF d] obtain hb nm where hb: "Header_serialize (header e') = Inr hb"
    and dd: "d = hb @ padding e' @ ljust NAME_SIZE 0 nm" by blast
  have l: "length hb = 32" using hb by (rule Header_serialize_length)
  have sz: "size' (header e') = int (length c)" "content e' = c" by (simp_all add: e'_def)
  have "int (le_value (slice 4 8 (hb @ (padding e' @ ljust NAME_SIZE 0 nm
      @ c @ replicate (nat (getContentPaddingSize (int (length c)))) 0)))) = size' (header e')"
    using hb by (rule Header_serialize_size_bytes)
  then have f: "int (le_value (slice 4 8 bs)) = int (length c)"
    by (simp add: bs dd sz)
  have "take 32 bs = hb" by (simp add: bs dd l)
  with e hb sz f show ?thesis by (simp add: e'_def)
qed

lemma valid_now0: "valid_datetime now0" "valid_datetime now1"
  by (simp_all add: valid_datetime_def datetime_fields_ok_def now0_def now1_def days_in_month_def
      is_leap_def)

lemma valid_defaults0: "valid_datetime (fst defaults0)" "valid_datetime (snd defaults0)"
  using valid_now0 by (simp_all add: defaults0_def)

lemma encode_UTF8_ascii: "\<forall>c \<in> set s. c < 128 \<Longrightarrow> encode_UTF8 s = Inr (map of_nat s)"
  by (induction s) (simp_all add: encode_char_def)

theorem file_serialize_assigns_size_witness:
  "\<exists>bs e. File_serialize [97] (Header_init defaults0 FILE 999) (replicate 32 0) [1, 2, 3] = Inr (bs, e)
     \<and> size' (header e) = 3 \<and> int (le_value (slice 4 8 bs)) = 3"
proof -
  let ?h = "(Header_init defaults0 FILE 999)\<lparr>size' := 3\<rparr>"
  have "header_packs ?h"
    using valid_defaults0 by (simp add: header_packs_def Header_init_def FILE_def)
  then obtain hb where hb: "Header_serialize ?h = Inr hb"
    using Header_serialize_total by blast
  have nm: "encode_UTF8 [97] = Inr (map of_nat [97])"
    by (rule encode_UTF8_ascii) simp
  have "\<exists>bs e. File_serialize [97] (Header_init defaults0 FILE 999) (replicate 32 0) [1, 2, 3]
      = Inr (bs, e)"
    using hb nm by (simp add: File_serialize_def Entry_serialize_def Let_def)
  then obtain bs e where r:
    "File_serialize [97] (Header_init defaults0 FILE 999) (replicate 32 0) [1, 2, 3] = Inr (bs, e)"
    by blast
  from file_serialize_assigns_size [OF r] r show ?thesis by auto
qed

section \<open>Lookup and \<open>PSU.write\<close>\<close>

lemma index_loop_Inr:
  "index_loop es k nm None = Inr i \<Longrightarrow>
     \<exists>j < length es. i = k + j \<and> name (es ! j) = nm \<and> (\<forall>l < j. name (es ! l) \<noteq> nm)"
proof (induction es arbitrary: k)
  case Nil
  then show ?case by simp
next
  case (Cons e es)
  show ?case
  proof (cases "name e = nm")
    case True
    with Cons.prems have "i = k" by simp
    with True show ?thesis by (intro exI [of _ 0]) simp
  next
    case False
    with Cons.prems have "index_loop es (Suc k) nm None = Inr i" by simp
    from Cons.IH [OF this] obtain j where j: "j < length es" "i = Suc k + j"
      "name (es ! j) = nm" "\<forall>l < j. name (es ! l) \<noteq> nm" by blast
    have "\<forall>l < Suc j. name ((e # es) ! l) \<noteq> nm"
      using False j(4) by (auto simp: nth_Cons split: nat.splits)
    with j show ?thesis by (intro exI [of _ "Suc j"]) simp
  qed
qed

lemma index_loop_Inl:
  "index_loop es k nm None = Inl err \<Longrightarrow>
     err = EntryNotFoundException nm \<and> (\<forall>e \<in> set es. name e \<noteq> nm)"
  by (induction es arbitrary: k) (auto split: if_splits)

lemma PSU_has_iff: "PSU_has p nm \<longleftrightarrow> (\<exists>e \<in> set (entries p). name e = nm)"
proof (cases "index_loop (entries p) 0 nm None")
  case (Inl err)
  then have "\<not> PSU_has p nm" by (simp add: PSU_has_def PSU_get_def PSU_index_def)
  with index_loop_Inl [OF Inl] show ?thesis by blast
next
  case (Inr i)
  then have "PSU_has p nm" by (simp add: PSU_has_def PSU_get_def PSU_index_def)
  moreover from index_loop_Inr [OF Inr] obtain j where "j < length (entries p)"
    "name (entries p ! j) = nm" by blast
  then have "\<exists>e \<in> set (entries p). name e = nm" using nth_mem by blast
  ultimately show ?thesis by simp
qed

lemma set_size_fields [simp]:
  "name (set_size s e) = name e" "padding (set_size s e) = padding e"
  "size' (header (set_size s e)) = s" "type' (header (set_size s e)) = type' (header e)"
  "content_of (set_size s e) = content_of e"
  by (cases e; simp add: set_size_def content_of_def)+

lemma set_content_fields [simp]:
  "name (set_content d e) = name e" "padding (set_content d e) = padding e"
  "header (set_content d e) = header e" "content_of (set_content d e) = Some d"
  by (cases e; simp add: set_content_def content_of_def)+

text \<open>
  Claim C6. \<open>has(name)\<close> holds exactly when some entry has the name. When it does,
  \<open>write(name, data)\<close> replaces the first entry of that name by the same entry with
  \<open>content = data\<close> and \<open>header.size = len(data)\<close> (its name and header type are
  kept), at the same position, and the number of entries is unchanged. When it does not,
  \<open>write\<close> appends one new \<open>File\<close> entry of type FILE at the end, and the number
  of entries grows by exactly one. (\<open>data\<close> is a \<open>bytes\<close> object, or a \<open>str\<close>
  that UTF-8 encodes to the bytes \<open>dat\<close>.)
\<close>

theorem write_replaces_or_appends:
  assumes "to_bytes d = Inr dat"
  shows "(PSU_has p nm \<longleftrightarrow> (\<exists>e \<in> set (entries p). name e = nm))
    \<and> (PSU_has p nm \<longrightarrow>
         (\<exists>i e p'. PSU_write now p nm d = Inr (p', e)
            \<and> i < length (entries p) \<and> name (entries p ! i) = nm
            \<and> (\<forall>j < i. name (entries p ! j) \<noteq> nm)
            \<and> entries p' = (entries p)[i := e]
            \<and> name e = nm \<and> content_of e = Some dat \<and> size' (header e) = int (length dat)
            \<and> type' (header e) = type' (header (entries p ! i))
            \<and> length (entries p') = length (entries p)))
    \<and> (\<not> PSU_has p nm \<longrightarrow>
         (\<exists>e p'. PSU_write now p nm d = Inr (p', e)
            \<and> entries p' = entries p @ [e]
            \<and> e = File nm (Header_init now FILE (int (length dat))) (replicate 32 0) dat
            \<and> type' (header e) = FILE
            \<and> length (entries p') = length (entries p) + 1))"
proof (intro conjI impI)
  show "PSU_has p nm \<longleftrightarrow> (\<exists>e \<in> set (entries p). name e = nm)" by (rule PSU_has_iff)
next
  assume h: "PSU_has p nm"
  then obtain i where i: "index_loop (entries p) 0 nm None = Inr i"
    by (cases "index_loop (entries p) 0 nm None")
      (simp_all add: PSU_has_def PSU_get_def PSU_index_def)
  from index_loop_Inr [OF i] have b: "i < length (entries p)" "name (entries p ! i) = nm"
    "\<forall>j < i. name (entries p ! j) \<noteq> nm" by auto
  define e where "e = set_size (int (length dat)) (set_content dat (entries p ! i))"
  have "PSU_write now p nm d = Inr (p\<lparr>entries := (entries p)[i := e]\<rparr>, e)"
    using assms h i by (simp add: PSU_write_def PSU_index_def e_def Let_def)
  with b show "\<exists>i e p'. PSU_write now p nm d = Inr (p', e)
            \<and> i < length (entries p) \<and> name (entries p ! i) = nm
            \<and> (\<forall>j < i. name (entries p ! j) \<noteq> nm)
            \<and> entries p' = (entries p)[i := e]
            \<and> name e = nm \<and> content_of e = Some dat \<and> size' (header e) = int (length dat)
            \<and> type' (header e) = type' (header (entries p ! i))
            \<and> length (entries p') = length (entries p)"
    by (intro exI [of _ i] exI [of _ e] exI [of _ "p\<lparr>entries := (entries p)[i := e]\<rparr>"])
      (simp add: e_def)
next
  assume h: "\<not> PSU_has p nm"
  show "\<exists>e p'. PSU_write now p nm d = Inr (p', e)
            \<and> entries p' = entries p @ [e]
            \<and> e = File nm (Header_init now FILE (int (length dat))) (replicate 32 0) dat
            \<and> type' (header e) = FILE
            \<and> length (entries p') = length (entries p) + 1"
    using assms h
    by (simp add: PSU_write_def Let_def File_init_def PSU_add_def PADDING_SIZE_def Header_init_def)
qed

theorem write_replaces_or_appends_witness:
  "(\<exists>e p'. PSU_write defaults0 (PSU_create defaults0 [115] [115]) [46] (Bytes [1, 2, 3]) = Inr (p', e)
      \<and> length (entries p') = 3 \<and> content_of e = Some [1, 2, 3] \<and> size' (header e) = 3)
   \<and> (\<exists>e p'. PSU_write defaults0 (PSU_create defaults0 [115] [115]) [102] (Bytes [1, 2, 3]) = Inr (p', e)
      \<and> length (entries p') = 4 \<and> type' (header e) = FILE)"
proof -
  let ?p = "PSU_create defaults0 [115] [115]"
  have h: "PSU_has ?p [46]" and n: "\<not> PSU_has ?p [102]"
    by (simp_all add: PSU_has_iff PSU_create_def PSU_add_def PSU_init_def Directory_init_def)
  have l: "length (entries ?p) = 3"
    by (simp add: PSU_create_def PSU_add_def PSU_init_def)
  have t: "to_bytes (Bytes [1, 2, 3]) = Inr [1, 2, 3]" by (simp add: to_bytes_def)
  have "\<exists>e p'. PSU_write defaults0 ?p [46] (Bytes [1, 2, 3]) = Inr (p', e)
      \<and> length (entries p') = 3 \<and> content_of e = Some [1, 2, 3] \<and> size' (header e) = 3"
    using write_replaces_or_appends [OF t, of ?p "[46]" defaults0] h l by auto
  moreover have "\<exists>e p'. PSU_write defaults0 ?p [102] (Bytes [1, 2, 3]) = Inr (p', e)
      \<and> length (entries p') = 4 \<and> type' (header e) = FILE"
    using write_replaces_or_appends [OF t, of ?p "[102]" defaults0] n l by auto
  ultimately show ?thesis by blast
qed

section \<open>\<open>PSU.save\<close>\<close>

lemma save_loop_two_pass: "save_loop n es = encode_all (map (resolve_size n) es)"
  by (induction es) simp_all

lemma resolve_size_directory:
  "type' (header e) = DIRECTORY \<Longrightarrow>
     resolve_size n e = set_size (if name e = [46] \<or> name e = [46, 46] then 0 else int n - 1) e"
  by (simp add: resolve_size_def)

lemma resolve_size_other: "type' (header e) \<noteq> DIRECTORY \<Longrightarrow> resolve_size n e = e"
  by (simp add: resolve_size_def)

lemma resolve_size_fields [simp]:
  "name (resolve_size n e) = name e" "padding (resolve_size n e) = padding e"
  "type' (header (resolve_size n e)) = type' (header e)"
  "content_of (resolve_size n e) = content_of e"
  by (simp_all add: resolve_size_def)

lemma set_size_set_size [simp]: "set_size s (set_size t e) = set_size s e"
  by (cases e) (simp_all add: set_size_def)

lemma resolve_size_idem [simp]: "resolve_size n (resolve_size n e) = resolve_size n e"
  by (simp add: resolve_size_def)

lemma resolve_size_File:
  "\<exists>h'. resolve_size n (File nm h pd c) = File nm h' pd c
     \<and> h'\<lparr>size' := s\<rparr> = h\<lparr>size' := s\<rparr> \<and> type' h' = type' h"
  by (simp add: resolve_size_def set_size_def)

lemma resolve_size_Directory:
  "\<exists>h'. resolve_size n (Directory nm h pd a) = Directory nm h' pd a"
  by (simp add: resolve_size_def set_size_def)

lemma serialize_resolve_idem:
  assumes "serialize (resolve_size n e) = Inr (bs, e')"
  shows "serialize (resolve_size n e') = Inr (bs, e')"
proof (cases e)
  case (File nm h pd c)
  from resolve_size_File [of n nm h pd c "int (length c)"] obtain h1
    where h1: "resolve_size n e = File nm h1 pd c"
      "h1\<lparr>size' := int (length c)\<rparr> = h\<lparr>size' := int (length c)\<rparr>"
    using File by auto
  define e2 where "e2 = File nm (h\<lparr>size' := int (length c)\<rparr>) pd c"
  have u: "serialize (File nm h1 pd c) = bindE (Entry_serialize e2) (\<lambda>d.
       Inr (d @ c @ replicate (nat (getContentPaddingSize (int (length c)))) 0, e2))"
    by (simp add: serialize_def File_serialize_unfold h1(2) e2_def)
  from assms h1(1) u have e': "e' = e2"
    by (cases "Entry_serialize e2") simp_all
  from resolve_size_File [of n nm "h\<lparr>size' := int (length c)\<rparr>" pd c "int (length c)"]
  obtain h3 where h3: "resolve_size n e2 = File nm h3 pd c"
      "h3\<lparr>size' := int (length c)\<rparr> = h\<lparr>size' := int (length c)\<rparr>"
    by (auto simp: e2_def)
  have "serialize (File nm h3 pd c) = serialize (File nm h1 pd c)"
    by (simp add: serialize_def File_serialize_unfold h1(2) h3(2))
  with assms h1(1) h3(1) e' show ?thesis by simp
next
  case (Directory nm h pd a)
  from resolve_size_Directory [of n nm h pd a] obtain h1
    where h1: "resolve_size n e = Directory nm h1 pd a" using Directory by auto
  from assms h1 have "e' = resolve_size n e"
    by (cases "Entry_serialize (Directory nm h1 pd a)") (simp_all add: serialize_def)
  with assms show ?thesis by simp
qed

lemma save_loop_idem:
  "save_loop n es = Inr (data, es') \<Longrightarrow> save_loop n es' = Inr (data, es') \<and> length es' = length es"
proof (induction es arbitrary: data es')
  case Nil
  then show ?case by simp
next
  case (Cons e es)
  from Cons.prems obtain bs e1 dt es1 where s: "serialize (resolve_size n e) = Inr (bs, e1)"
    and l: "save_loop n es = Inr (dt, es1)" and d: "data = bs @ dt" "es' = e1 # es1"
    by (auto simp: bindE_Inr_iff)
  from Cons.IH [OF l] serialize_resolve_idem [OF s] d show ?case by simp
qed

text \<open>
  Claim C8. When \<open>save\<close> succeeds, a second \<open>save\<close> of the archive as the first
  call left it, with no mutation in between, succeeds with byte-identical output (and
  leaves the archive as it is).
\<close>

theorem save_twice_same_bytes:
  assumes "PSU_save p = Inr (data, p')"
  shows "PSU_save p' = Inr (data, p')"
proof -
  from assms obtain es' where l: "save_loop (length (entries p)) (entries p) = Inr (data, es')"
    and p': "p' = p\<lparr>entries := es'\<rparr>"
    by (auto simp: PSU_save_def bindE_Inr_iff)
  from save_loop_idem [OF l] p' show ?thesis by (simp add: PSU_save_def)
qed

lemma save_loop_entries:
  "save_loop n es = Inr (data, es') \<Longrightarrow>
     list_all2 (\<lambda>e e'. \<exists>bs. serialize (resolve_size n e) = Inr (bs, e')) es es'"
proof (induction es arbitrary: data es')
  case Nil
  then show ?case by simp
next
  case (Cons e es)
  from Cons.prems obtain bs e1 dt es1 where s: "serialize (resolve_size n e) = Inr (bs, e1)"
    and l: "save_loop n es = Inr (dt, es1)" and d: "es' = e1 # es1"
    by (auto simp: bindE_Inr_iff)
  from Cons.IH [OF l] s d show ?case by auto
qed

lemma serialize_Directory:
  "serialize (Directory nm h pd a) = Inr (bs, e') \<Longrightarrow> e' = Directory nm h pd a"
  by (cases "Entry_serialize (Directory nm h pd a)") (simp_all add: serialize_def)

lemma save_loop_directory_entry:
  assumes "save_loop n es = Inr (data, es')" and "i < length es"
    and "es ! i = Directory nm h pd a" and "type' h = DIRECTORY"
  shows "es' ! i = Directory nm
           (h\<lparr>size' := (if nm = [46] \<or> nm = [46, 46] then 0 else int n - 1)\<rparr>) pd a"
proof -
  from save_loop_entries [OF assms(1)] assms(2)
  obtain bs where "serialize (resolve_size n (es ! i)) = Inr (bs, es' ! i)"
    by (auto dest: list_all2_nthD)
  moreover have "resolve_size n (es ! i) = Directory nm
           (h\<lparr>size' := (if nm = [46] \<or> nm = [46, 46] then 0 else int n - 1)\<rparr>) pd a"
    using assms(3,4) by (simp add: resolve_size_def set_size_def)
  ultimately show ?thesis by (simp add: serialize_Directory)
qed

text \<open>
  Claim C2. On every call, \<open>save\<close> returns what the two passes return: the sizes of all
  entries of header type DIRECTORY recomputed first, all entries encoded afterwards. The
  recomputed size is 0 for the names \<open>.\<close> and \<open>..\<close> and the number of entries minus 1
  for any other name, whatever size the entry held before. After a successful call every
  \<open>Directory\<close> entry of type DIRECTORY holds exactly that size, and the number of entries
  is unchanged.
\<close>

theorem save_recomputes_directory_sizes:
  "PSU_save p = save_two_pass p
   \<and> (\<forall>e \<in> set (entries p). type' (header e) = DIRECTORY \<longrightarrow>
         size' (header (resolve_size (length (entries p)) e))
           = (if name e = [46] \<or> name e = [46, 46] then 0 else int (length (entries p)) - 1))
   \<and> (\<forall>data p'. PSU_save p = Inr (data, p') \<longrightarrow>
         length (entries p') = length (entries p)
         \<and> (\<forall>i < length (entries p). \<forall>nm h pd a.
               entries p ! i = Directory nm h pd a \<and> type' h = DIRECTORY \<longrightarrow>
               entries p' ! i = Directory nm
                 (h\<lparr>size' := (if nm = [46] \<or> nm = [46, 46] then 0
                               else int (length (entries p)) - 1)\<rparr>) pd a))"
proof (intro conjI allI impI ballI)
  show "PSU_save p = save_two_pass p"
    by (simp add: PSU_save_def save_two_pass_def save_loop_two_pass Let_def)
next
  fix e assume "type' (header e) = DIRECTORY"
  then show "size' (header (resolve_size (length (entries p)) e))
           = (if name e = [46] \<or> name e = [46, 46] then 0 else int (length (entries p)) - 1)"
    by (simp add: resolve_size_directory)
next
  fix data p' assume s: "PSU_save p = Inr (data, p')"
  then obtain es' where l: "save_loop (length (entries p)) (entries p) = Inr (data, es')"
    and p': "p' = p\<lparr>entries := es'\<rparr>"
    by (auto simp: PSU_save_def bindE_Inr_iff)
  from save_loop_idem [OF l] p' show "length (entries p') = length (entries p)" by simp
  fix i nm h pd a
  assume "i < length (entries p)" "entries p ! i = Directory nm h pd a \<and> type' h = DIRECTORY"
  with save_loop_directory_entry [OF l, of i nm h pd a] p'
  show "entries p' ! i = Directory nm
                 (h\<lparr>size' := (if nm = [46] \<or> nm = [46, 46] then 0
                               else int (length (entries p)) - 1)\<rparr>) pd a"
    by simp
qed

lemma Entry_serialize_total:
  assumes "header_packs (header e)" and "encodable (name e)"
  shows "\<exists>d. Entry_serialize e = Inr d"
proof -
  from Header_serialize_total [OF assms(1)] obtain hb where "Header_serialize (header e) = Inr hb"
    by blast
  moreover from assms(2) obtain nm where "encode_UTF8 (name e) = Inr nm"
    by (cases "encode_UTF8 (name e)") (simp_all add: encodable_def)
  ultimately show ?thesis by (simp add: Entry_serialize_def Let_def)
qed

lemma serialize_total:
  assumes "entry_packs e"
  shows "\<exists>bs e'. serialize e = Inr (bs, e')"
proof (cases e)
  case (File nm h pd c)
  with assms have "\<exists>d. Entry_serialize (File nm (h\<lparr>size' := int (length c)\<rparr>) pd c) = Inr d"
    by (intro Entry_serialize_total) (simp_all add: entry_packs_def)
  with File show ?thesis by (auto simp: serialize_def File_serialize_unfold)
next
  case (Directory nm h pd a)
  with assms have "\<exists>d. Entry_serialize e = Inr d"
    by (intro Entry_serialize_total) (simp_all add: entry_packs_def)
  with Directory show ?thesis by (auto simp: serialize_def)
qed

lemma save_loop_total:
  "\<forall>e \<in> set es. entry_packs (resolve_size n e) \<Longrightarrow> \<exists>data es'. save_loop n es = Inr (data, es')"
proof (induction es)
  case Nil
  then show ?case by simp
next
  case (Cons e es)
  then obtain data es' where "save_loop n es = Inr (data, es')" by auto
  moreover from Cons.prems serialize_total [of "resolve_size n e"]
  obtain bs e' where "serialize (resolve_size n e) = Inr (bs, e')" by auto
  ultimately show ?case by simp
qed

lemma PSU_save_total:
  assumes "\<forall>e \<in> set (entries p). entry_packs (resolve_size (length (entries p)) e)"
  shows "\<exists>data p'. PSU_save p = Inr (data, p')"
proof -
  from save_loop_total [OF assms] obtain data es'
    where "save_loop (length (entries p)) (entries p) = Inr (data, es')" by blast
  then show ?thesis by (simp add: PSU_save_def)
qed

lemma header_packs_init:
  "0 \<le> t \<Longrightarrow> t < 65536 \<Longrightarrow> 0 \<le> s \<Longrightarrow> s < 4294967296 \<Longrightarrow> header_packs (Header_init defaults0 t s)"
  using valid_defaults0 by (simp add: header_packs_def Header_init_def)

lemma demo_saves: "\<exists>data p'. PSU_save demo = Inr (data, p')"
proof (rule PSU_save_total)
  have h: "\<And>s. 0 \<le> s \<Longrightarrow> s < 4294967296 \<Longrightarrow>
      header_packs ((Header_init defaults0 DIRECTORY 0)\<lparr>size' := s\<rparr>)
      \<and> header_packs ((Header_init defaults0 FILE 0)\<lparr>size' := s\<rparr>)"
    using valid_defaults0 by (simp add: header_packs_def Header_init_def DIRECTORY_def FILE_def)
  show "\<forall>e \<in> set (entries demo). entry_packs (resolve_size (length (entries demo)) e)"
    using h [of 0] h [of 3]
    by (simp add: demo_def entry_packs_def resolve_size_def set_size_def encodable_def
        encode_char_def Header_init_def DIRECTORY_def FILE_def)
qed

theorem save_twice_same_bytes_witness:
  "\<exists>data p'. PSU_save demo = Inr (data, p') \<and> PSU_save p' = Inr (data, p')"
proof -
  from demo_saves obtain data p' where s: "PSU_save demo = Inr (data, p')" by blast
  from save_twice_same_bytes [OF s] s show ?thesis by blast
qed

theorem save_recomputes_directory_sizes_witness:
  "\<exists>data p'. PSU_save demo = Inr (data, p')
     \<and> size' (header (entries p' ! 0)) = 3 \<and> size' (header (entries p' ! 1)) = 0
     \<and> size' (header (entries p' ! 2)) = 0"
proof -
  from demo_saves obtain data p' where s: "PSU_save demo = Inr (data, p')" by blast
  have l: "length (entries demo) = 4" by (simp add: demo_def)
  have t: "type' (Header_init defaults0 DIRECTORY k) = DIRECTORY" for k
    by (simp add: Header_init_def)
  note c = save_recomputes_directory_sizes [of demo, THEN conjunct2, THEN conjunct2, rule_format,
      OF s, THEN conjunct2, rule_format]
  have "entries p' ! 0 = Directory [115] ((Header_init defaults0 DIRECTORY 7)\<lparr>size' := 3\<rparr>)
      (replicate 32 0) None"
    using c [of 0 "[115]" "Header_init defaults0 DIRECTORY 7" "replicate 32 0" None] t l
    by (simp add: demo_def)
  moreover have "entries p' ! 1 = Directory [46] ((Header_init defaults0 DIRECTORY 5)\<lparr>size' := 0\<rparr>)
      (replicate 32 0) None"
    using c [of 1 "[46]" "Header_init defaults0 DIRECTORY 5" "replicate 32 0" None] t l
    by (simp add: demo_def)
  moreover have "entries p' ! 2 = Directory [46, 46] ((Header_init defaults0 DIRECTORY 9)\<lparr>size' := 0\<rparr>)
      (replicate 32 0) None"
    using c [of 2 "[46, 46]" "Header_init defaults0 DIRECTORY 9" "replicate 32 0" None] t l
    by (simp add: demo_def)
  ultimately show ?thesis using s by simp
qed

section \<open>Timestamps in a 32-byte header\<close>

lemma unpack_byte_field:
  assumes "i < length ws" and "ws ! i = 1" and "sum_list (take i ws) = n" and "n < length data"
  shows "unpack_fields ws data ! i = int (unat (data ! n))"
proof -
  from assms(4) have "drop n data = data ! n # drop (Suc n) data"
    by (simp add: Cons_nth_drop_Suc)
  then have "le_value (take 1 (drop n data)) = unat (data ! n)" by simp
  with unpack_fields_nth [OF assms(1), of data] assms(2,3) show ?thesis by simp
qed

lemma unpack_short_field:
  assumes "i < length ws" and "ws ! i = 2" and "sum_list (take i ws) = n"
    and "Suc n < length data"
  shows "unpack_fields ws data ! i = int (unat (data ! n) + 256 * unat (data ! Suc n))"
proof -
  from assms(4) have "drop n data = data ! n # data ! Suc n # drop (Suc (Suc n)) data"
    by (simp add: Cons_nth_drop_Suc)
  then have "le_value (take 2 (drop n data)) = unat (data ! n) + 256 * unat (data ! Suc n)"
    by (simp add: numeral_2_eq_2)
  with unpack_fields_nth [OF assms(1), of data] assms(2,3) show ?thesis by simp
qed

lemma FORMAT_layout:
  "length FORMAT = 20"
  "FORMAT ! 4 = 1" "sum_list (take 4 FORMAT) = 9"
  "FORMAT ! 5 = 1" "sum_list (take 5 FORMAT) = 10"
  "FORMAT ! 6 = 1" "sum_list (take 6 FORMAT) = 11"
  "FORMAT ! 7 = 1" "sum_list (take 7 FORMAT) = 12"
  "FORMAT ! 8 = 1" "sum_list (take 8 FORMAT) = 13"
  "FORMAT ! 9 = 2" "sum_list (take 9 FORMAT) = 14"
  "FORMAT ! 14 = 1" "sum_list (take 14 FORMAT) = 25"
  "FORMAT ! 15 = 1" "sum_list (take 15 FORMAT) = 26"
  "FORMAT ! 16 = 1" "sum_list (take 16 FORMAT) = 27"
  "FORMAT ! 17 = 1" "sum_list (take 17 FORMAT) = 28"
  "FORMAT ! 18 = 1" "sum_list (take 18 FORMAT) = 29"
  "FORMAT ! 19 = 2" "sum_list (take 19 FORMAT) = 30"
  by (simp_all add: FORMAT_def)

lemma unpack_header_fields:
  assumes "length data = 32"
  shows "unpack_fields FORMAT data ! 4 = ts_second 8 data"
    "unpack_fields FORMAT data ! 5 = ts_minute 8 data"
    "unpack_fields FORMAT data ! 6 = ts_hour 8 data"
    "unpack_fields FORMAT data ! 7 = ts_day 8 data"
    "unpack_fields FORMAT data ! 8 = ts_month 8 data"
    "unpack_fields FORMAT data ! 9 = ts_year 8 data"
    "unpack_fields FORMAT data ! 14 = ts_second 24 data"
    "unpack_fields FORMAT data ! 15 = ts_minute 24 data"
    "unpack_fields FORMAT data ! 16 = ts_hour 24 data"
    "unpack_fields FORMAT data ! 17 = ts_day 24 data"
    "unpack_fields FORMAT data ! 18 = ts_month 24 data"
    "unpack_fields FORMAT data ! 19 = ts_year 24 data"
proof -
  show "unpack_fields FORMAT data ! 4 = ts_second 8 data"
    using unpack_byte_field [of 4 FORMAT 9 data] assms by (simp add: FORMAT_layout ts_second_def)
  show "unpack_fields FORMAT data ! 5 = ts_minute 8 data"
    using unpack_byte_field [of 5 FORMAT 10 data] assms by (simp add: FORMAT_layout ts_minute_def)
  show "unpack_fields FORMAT data ! 6 = ts_hour 8 data"
    using unpack_byte_field [of 6 FORMAT 11 data] assms by (simp add: FORMAT_layout ts_hour_def)
  show "unpack_fields FORMAT data ! 7 = ts_day 8 data"
    using unpack_byte_field [of 7 FORMAT 12 data] assms by (simp add: FORMAT_layout ts_day_def)
  show "unpack_fields FORMAT data ! 8 = ts_month 8 data"
    using unpack_byte_field [of 8 FORMAT 13 data] assms by (simp add: FORMAT_layout ts_month_def)
  show "unpack_fields FORMAT data ! 9 = ts_year 8 data"
    using unpack_short_field [of 9 FORMAT 14 data] assms by (simp add: FORMAT_layout ts_year_def)
  show "unpack_fields FORMAT data ! 14 = ts_second 24 data"
    using unpack_byte_field [of 14 FORMAT 25 data] assms by (simp add: FORMAT_layout ts_second_def)
  show "unpack_fields FORMAT data ! 15 = ts_minute 24 data"
    using unpack_byte_field [of 15 FORMAT 26 data] assms by (simp add: FORMAT_layout ts_minute_def)
  show "unpack_fields FORMAT data ! 16 = ts_hour 24 data"
    using unpack_byte_field [of 16 FORMAT 27 data] assms by (simp add: FORMAT_layout ts_hour_def)
  show "unpack_fields FORMAT data ! 17 = ts_day 24 data"
    using unpack_byte_field [of 17 FORMAT 28 data] assms by (simp add: FORMAT_layout ts_day_def)
  show "unpack_fields FORMAT data ! 18 = ts_month 24 data"
    using unpack_byte_field [of 18 FORMAT 29 data] assms by (simp add: FORMAT_layout ts_month_def)
  show "unpack_fields FORMAT data ! 19 = ts_year 24 data"
    using unpack_short_field [of 19 FORMAT 30 data] assms by (simp add: FORMAT_layout ts_year_def)
qed

lemma Header_deserialize_32:
  assumes "length data = 32"
  shows "Header_deserialize data =
     (if timestamp_ok 8 data \<and> timestamp_ok 24 data
      then Inr \<lparr>type' = unpack_fields FORMAT data ! 0, size' = unpack_fields FORMAT data ! 2,
         created = \<lparr>year = ts_year 8 data, month = ts_month 8 data, day = ts_day 8 data,
           hour = ts_hour 8 data, minute = ts_minute 8 data, second = ts_second 8 data,
           microsecond = 0\<rparr>,
         modified = \<lparr>year = ts_year 24 data, month = ts_month 24 data, day = ts_day 24 data,
           hour = ts_hour 24 data, minute = ts_minute 24 data, second = ts_second 24 data,
           microsecond = 0\<rparr>,
         sectorAddress = unpack_fields FORMAT data ! 10, unk1 = unpack_fields FORMAT data ! 1,
         unk2 = unpack_fields FORMAT data ! 11, unk3 = unpack_fields FORMAT data ! 12\<rparr>
      else Inl ValueError)"
proof -
  have "struct_unpack FORMAT data = Inr (unpack_fields FORMAT data)"
    using assms by (simp add: struct_unpack_def FORMAT_def)
  then show ?thesis
    by (simp add: Header_deserialize_def unpack_header_fields [OF assms] datetime_init_def
        timestamp_ok_def)
qed

lemma timestamp_ok_listed: "timestamp_ok k data \<Longrightarrow> listed_conditions k data"
  by (simp add: timestamp_ok_def listed_conditions_def datetime_fields_ok_def)

lemma zero_header_fails:
  "length (replicate 32 (0::byte)) = 32 \<and> \<not> listed_conditions 8 (replicate 32 0)
   \<and> Header_deserialize (replicate 32 0) = Inl ValueError"
proof -
  have m: "ts_month 8 (replicate 32 0) = 0" by (simp add: ts_month_def)
  then have "\<not> timestamp_ok 8 (replicate 32 0)"
    by (simp add: timestamp_ok_def datetime_fields_ok_def)
  then have "Header_deserialize (replicate 32 0) = Inl ValueError"
    by (simp add: Header_deserialize_32)
  with m show ?thesis by (simp add: listed_conditions_def)
qed

text \<open>
  Claim C9. On an input of exactly 32 bytes \<open>Header.deserialize\<close> succeeds exactly when
  both timestamp sub-records (at bytes 8 and 24) pass the checks of the \<open>datetime\<close>
  constructor; so it succeeds only if both satisfy the listed conditions (month 1 to 12,
  day valid for the month and year, hour at most 23, minute and second at most 59, year at
  least 1), and otherwise it raises \<open>ValueError\<close>. Some 32-byte input violates the
  conditions and makes decode raise although enough bytes were supplied.
\<close>

theorem header_decode_needs_valid_timestamps:
  "(length data = 32 \<longrightarrow>
      ((\<exists>h. Header_deserialize data = Inr h) \<longleftrightarrow> timestamp_ok 8 data \<and> timestamp_ok 24 data)
      \<and> ((\<exists>h. Header_deserialize data = Inr h) \<longrightarrow>
            listed_conditions 8 data \<and> listed_conditions 24 data)
      \<and> (\<not> (timestamp_ok 8 data \<and> timestamp_ok 24 data) \<longrightarrow>
            Header_deserialize data = Inl ValueError))
   \<and> (\<exists>d. length d = 32 \<and> \<not> listed_conditions 8 d \<and> Header_deserialize d = Inl ValueError)"
proof (intro conjI impI)
  assume l: "length data = 32"
  show iff: "(\<exists>h. Header_deserialize data = Inr h) \<longleftrightarrow> timestamp_ok 8 data \<and> timestamp_ok 24 data"
    by (simp add: Header_deserialize_32 [OF l])
  show "listed_conditions 8 data" "listed_conditions 24 data"
    if "\<exists>h. Header_deserialize data = Inr h"
    using that iff timestamp_ok_listed by blast+
  show "Header_deserialize data = Inl ValueError"
    if "\<not> (timestamp_ok 8 data \<and> timestamp_ok 24 data)"
    using that by (simp add: Header_deserialize_32 [OF l])
next
  show "\<exists>d. length d = 32 \<and> \<not> listed_conditions 8 d \<and> Header_deserialize d = Inl ValueError"
    using zero_header_fails by blast
qed

lemma length_sample_header [simp]: "length (sample_header t0 t1 s0) = 32"
  by (simp add: sample_header_def)

lemma sample_header_timestamps:
  "timestamp_ok 8 (sample_header t0 t1 s0)" "timestamp_ok 24 (sample_header t0 t1 s0)"
  by (simp_all add: timestamp_ok_def datetime_fields_ok_def sample_header_def ts_year_def
      ts_month_def ts_day_def ts_hour_def ts_minute_def ts_second_def days_in_month_def
      is_leap_def)


theorem header_decode_needs_valid_timestamps_witness:
  "(\<exists>h. Header_deserialize (sample_header 0x97 0x84 3) = Inr h)
   \<and> listed_conditions 8 (sample_header 0x97 0x84 3)
   \<and> Header_deserialize (replicate 32 0) = Inl ValueError"
proof -
  note t = header_decode_needs_valid_timestamps [of "sample_header 0x97 0x84 3", THEN conjunct1,
      rule_format, OF length_sample_header]
  note z = header_decode_needs_valid_timestamps [of "replicate 32 0", THEN conjunct1,
      rule_format, THEN conjunct2, THEN conjunct2, rule_format]
  have "\<not> timestamp_ok 8 (replicate 32 0)"
    by (simp add: timestamp_ok_def datetime_fields_ok_def ts_month_def)
  then have "Header_deserialize (replicate 32 0) = Inl ValueError"
    using z by simp
  moreover have "\<exists>h. Header_deserialize (sample_header 0x97 0x84 3) = Inr h"
    using t sample_header_timestamps by blast
  moreover have "listed_conditions 8 (sample_header 0x97 0x84 3)"
    using t calculation(2) by blast
  ultimately show ?thesis by blast
qed

section \<open>Decoding one entry and the parse loop\<close>

lemma Entry_deserialize_decoded:
  assumes "Header_deserialize (slice 0 32 data) = Inr hdr"
    and "getName (slice 64 512 data) = Inr nm"
  shows "Entry_deserialize data =
     (if type' hdr = FILE then
        Inr (File nm hdr (getPadding (slice 32 64 data)) (slice_upto (size' hdr) (drop 512 data)),
             512 + (size' hdr + getContentPaddingSize (size' hdr)))
      else if type' hdr = DIRECTORY then
        Inr (Directory nm hdr (getPadding (slice 32 64 data)) None, 512)
      else Inl (UnknownEntryTypeException (type' hdr) nm))"
  using assms
  by (simp add: Entry_deserialize_def SIZE_def PADDING_SIZE_def NAME_SIZE_def Let_def
      File_deserialize_def Directory_deserialize_def)


















section \<open>Round trip: \<open>save\<close> then \<open>__parse\<close>\<close>










lemma name_fits_encode:
  assumes "name_fits s"
  obtains bs where "encode_UTF8 s = Inr bs" "length bs \<le> 448"
  using assms by (cases "encode_UTF8 s") (simp_all add: name_fits_def NAME_SIZE_def)




lemma decoded_header_fields:
  "type' (decoded_header h) = type' h" "size' (decoded_header h) = size' h"
  by (simp_all add: decoded_header_def)

lemma reparsed_fields [simp]:
  "name (reparsed e) = name e" "type' (header (reparsed e)) = type' (header e)"
  "size' (header (reparsed e)) = size' (header e)" "padding (reparsed e) = padding e"
  "file_content (reparsed e) = file_content e"
  by (cases e; simp add: reparsed_def file_content_def decoded_header_fields)+





lemma well_formed_resolve_size [simp]: "well_formed (resolve_size n e) = well_formed e"
  by (cases e) (simp_all add: well_formed_def resolve_size_def set_size_def)



lemma file_content_resolve_size [simp]: "file_content (resolve_size n e) = file_content e"
  by (cases e) (simp_all add: file_content_def resolve_size_def set_size_def)

















text \<open>
  The entries that the constructors build and that decoding returns are well formed, and
  \<open>PSU.write\<close> keeps an entry well formed.
\<close>

lemma well_formed_init:
  assumes "valid_datetime (fst now)" and "valid_datetime (snd now)"
  shows "well_formed (File_init now nm c)" "well_formed (Directory_init now nm)"
  using assms
  by (simp_all add: well_formed_def File_init_def Directory_init_def Header_init_def)

lemma well_formed_deserialized:
  assumes "Entry_deserialize data = Inr (e, n)" and "64 \<le> length data"
  shows "well_formed e"
proof -
  from assms(1) obtain hdr where h: "Header_deserialize (slice 0 32 data) = Inr hdr"
    by (auto simp: Entry_deserialize_def bindE_Inr_iff SIZE_def)
  with assms(1) obtain nm where nm: "getName (slice 64 512 data) = Inr nm"
    by (auto simp: Entry_deserialize_def bindE_Inr_iff SIZE_def PADDING_SIZE_def NAME_SIZE_def
        Let_def)
  have p: "length (getPadding (slice 32 64 data)) = 32"
    using assms(2) by (simp add: getPadding_def slice_def PADDING_SIZE_def)
  from assms(1) Header_deserialize_valid [OF h] p show ?thesis
    by (auto simp: Entry_deserialize_decoded [OF h nm] well_formed_def PADDING_SIZE_def
        split: if_splits)
qed

lemma well_formed_written:
  "well_formed e \<Longrightarrow> well_formed (set_size s (set_content d e))"
  by (cases e) (simp_all add: well_formed_def set_size_def set_content_def)

end
